theory Spec2Isabelle
  imports Complex_Main
begin

section \<open>Data model of the features engine\<close>

text \<open>
  \<^verbatim>\<open>SOM::Position\<close> is a pair of unsigned grid coordinates. The search never computes with
  the coordinates, it only compares and stores positions, so they are natural numbers.
\<close>

type_synonym Position = "nat \<times> nat"

text \<open>
  \<^verbatim>\<open>ObjectPositions<IdType> = std::unordered_map<IdType, std::vector<SOM::Position>>\<close>:
  only \<^verbatim>\<open>find\<close> is used on it, so it is a partial map.
\<close>

type_synonym 'id ObjectPositions = "'id \<rightharpoonup> Position list"

text \<open>
  \<^verbatim>\<open>ObjectMatrix<IdType> = SOM::Matrix<std::vector<IdType>>\<close>. The class \<^verbatim>\<open>SOM::Matrix\<close> is
  declared in som/Matrix.hpp; the search uses nothing but its \<^verbatim>\<open>get(position)\<close>, which is
  taken as a parameter: the matrix is the function from a position to the ids of its cell.
\<close>

type_synonym 'id ObjectMatrix = "Position \<Rightarrow> 'id list"

text \<open>
  \<^verbatim>\<open>SOM::Network\<close> is declared in som/Network.hpp; the search uses nothing but
  \<^verbatim>\<open>getClosestRefVectorPosition(positions, maxDistance)\<close>, which is taken as a parameter.
  A distance is a finite \<^verbatim>\<open>double\<close>, given by the real number it stands for.
\<close>

type_synonym Network = "Position list \<Rightarrow> real \<Rightarrow> Position option"

subsection \<open>Double precision\<close>

text \<open>
  The median and the bound handed to the network are \<^verbatim>\<open>double\<close>. A finite double is the real
  number it stands for; the product of two doubles is the exact product rounded to the
  nearest double, ties to the even significand (IEEE 754 binary64, the default rounding).
  \<open>twoPow k\<close> is \<open>2\<close> to the power \<open>k\<close>.
\<close>

definition twoPow :: "int \<Rightarrow> real" where
  "twoPow k = (if 0 \<le> k then 2 ^ nat k else 1 / 2 ^ nat (- k))"

text \<open>
  The exponent of the unit in the last place at \<open>x\<close>: doubles around \<open>x\<close> are the multiples of
  \<open>twoPow (ulpExponent x)\<close>. A significand has 53 bits, the exponent of the unit ranges from
  \<open>-1074\<close> (subnormal numbers) to \<open>971\<close>. The search starts at the exponent of the numbers
  between 1 and 2 and goes up or down.
\<close>

function ulpUp :: "int \<Rightarrow> real \<Rightarrow> int" where
  "ulpUp q x = (if 971 \<le> q \<or> \<bar>x\<bar> < twoPow (q + 53) then q else ulpUp (q + 1) x)"
  by pat_completeness auto
termination
  by (relation "measure (\<lambda>(q, x). nat (971 - q))") auto

function ulpDown :: "int \<Rightarrow> real \<Rightarrow> int" where
  "ulpDown q x = (if q \<le> - 1074 \<or> twoPow (q + 52) \<le> \<bar>x\<bar> then q else ulpDown (q - 1) x)"
  by pat_completeness auto
termination
  by (relation "measure (\<lambda>(q, x). nat (q + 1074))") auto

definition ulpExponent :: "real \<Rightarrow> int" where
  "ulpExponent x = (if \<bar>x\<bar> < 1 then ulpDown (- 52) x else ulpUp (- 52) x)"

text \<open>The nearest integer, a tie going to the even one.\<close>

definition roundToEven :: "real \<Rightarrow> int" where
  "roundToEven y =
     (let f = \<lfloor>y\<rfloor>
      in if y - of_int f < 1 / 2 then f
         else if 1 / 2 < y - of_int f then f + 1
         else if even f then f else f + 1)"

definition roundDouble :: "real \<Rightarrow> real" where
  "roundDouble x = of_int (roundToEven (x / twoPow (ulpExponent x))) * twoPow (ulpExponent x)"

text \<open>
  \<^verbatim>\<open>x * y\<close> on doubles. The search only multiplies by \<open>0.75\<close>, which makes a finite double
  smaller in magnitude, so the product does not overflow; infinities and NaN are not
  modelled.
\<close>

definition doubleMul :: "real \<Rightarrow> real \<Rightarrow> real" where
  "doubleMul x y = roundDouble (x * y)"

subsection \<open>The engine\<close>

type_synonym ArtistId = int
type_synonym ReleaseId = int
type_synonym TrackId = int

text \<open>
  The members of \<^verbatim>\<open>FeaturesEngine\<close>. \<^verbatim>\<open>_network\<close> is a \<^verbatim>\<open>std::unique_ptr\<close>, empty until a load
  has succeeded: \<open>None\<close> is the empty pointer. The link type enumeration
  \<^verbatim>\<open>Database::TrackArtistLinkType\<close> is a type parameter.
\<close>

record 'l FeaturesEngine =
  loadCancelled :: bool
  network :: "Network option"
  networkRefVectorsDistanceMedian :: real
  artistPositions :: "ArtistId ObjectPositions"
  artistMatrix :: "'l \<rightharpoonup> ArtistId ObjectMatrix"
  releasePositions :: "ReleaseId ObjectPositions"
  releaseMatrix :: "ReleaseId ObjectMatrix"
  trackPositions :: "TrackId ObjectPositions"
  trackMatrix :: "TrackId ObjectMatrix"

text \<open>
  The only way the search can fail: \<^verbatim>\<open>_network->getClosestRefVectorPosition\<close> on an empty
  \<^verbatim>\<open>_network\<close> pointer.
\<close>

datatype error = NullNetwork

text \<open>
  A call of \<^verbatim>\<open>getClosestRefVectorPosition\<close>, recorded with its two arguments. The search
  returns the calls it has made, in order, beside its result, so that what it asks of the
  network can be stated.
\<close>

type_synonym Call = "Position list \<times> real"

type_synonym 'id Outcome = "Call list \<times> (error + 'id list)"

section \<open>The similarity search\<close>

text \<open>
  Modelled from the spec: \<^verbatim>\<open>Utils::push_back_if_not_present\<close> is defined in utils/Utils.hpp,
  which is not among the sources. By its name and by section 4.4 (new ids are appended,
  preserving discovery order, no duplicates) it appends the value unless the vector already
  holds it.
\<close>

definition push_back_if_not_present :: "'a list \<Rightarrow> 'a \<Rightarrow> 'a list" where
  "push_back_if_not_present xs x = (if x \<in> set xs then xs else xs @ [x])"

text \<open>The loop over \<^verbatim>\<open>ids\<close> of \<^verbatim>\<open>getMatchingRefVectorsPosition\<close>; \<open>res\<close> is the vector built so far.\<close>

fun getMatchingRefVectorsPosition_loop ::
  "'id list \<Rightarrow> 'id ObjectPositions \<Rightarrow> Position list \<Rightarrow> Position list" where
  "getMatchingRefVectorsPosition_loop [] objectPositions res = res"
| "getMatchingRefVectorsPosition_loop (i # ids) objectPositions res =
     (case objectPositions i of
        None \<Rightarrow> getMatchingRefVectorsPosition_loop ids objectPositions res
      | Some positions \<Rightarrow>
          getMatchingRefVectorsPosition_loop ids objectPositions
            (foldl push_back_if_not_present res positions))"

definition getMatchingRefVectorsPosition ::
  "'id list \<Rightarrow> 'id ObjectPositions \<Rightarrow> Position list" where
  "getMatchingRefVectorsPosition ids objectPositions =
     (if ids = [] then [] else getMatchingRefVectorsPosition_loop ids objectPositions [])"

text \<open>\<^verbatim>\<open>getObjectsIds\<close>: the ids of the cells at the given positions, first occurrences only.\<close>

definition getObjectsIds :: "Position list \<Rightarrow> 'id ObjectMatrix \<Rightarrow> 'id list" where
  "getObjectsIds positions objectMatrix =
     foldl (\<lambda>res position. foldl push_back_if_not_present res (objectMatrix position))
       [] positions"

text \<open>
  The first half of a pass of \<^verbatim>\<open>getSimilarObjects\<close>: the ids of the searched cells, with the
  input ids erased (\<^verbatim>\<open>remove_if\<close> with \<^verbatim>\<open>std::find\<close> over \<^verbatim>\<open>ids\<close>).
\<close>

definition closestObjectIds :: "'id list \<Rightarrow> 'id ObjectMatrix \<Rightarrow> Position list \<Rightarrow> 'id list" where
  "closestObjectIds ids objectMatrix searched =
     filter (\<lambda>i. i \<notin> set ids) (getObjectsIds searched objectMatrix)"

text \<open>
  The second half: the \<^verbatim>\<open>for\<close> loop that reports the ids, and breaks as soon as \<open>res\<close> holds
  \<open>maxCount\<close> of them.
\<close>

fun reportObjects :: "nat \<Rightarrow> 'id list \<Rightarrow> 'id list \<Rightarrow> 'id list" where
  "reportObjects maxCount [] res = res"
| "reportObjects maxCount (i # rest) res =
     (if length res = maxCount then res
      else reportObjects maxCount rest (push_back_if_not_present res i))"

text \<open>
  The \<^verbatim>\<open>while (1)\<close> loop. Its state is the searched positions, the result and the calls made
  so far. The loop need not end, so it is a partial function: \<open>None\<close> is a run that never
  returns.
\<close>

partial_function (option) getSimilarObjects_loop ::
  "'l FeaturesEngine \<Rightarrow> 'id list \<Rightarrow> 'id ObjectMatrix \<Rightarrow> nat \<Rightarrow>
   Position list \<Rightarrow> 'id list \<Rightarrow> Call list \<Rightarrow> 'id Outcome option" where
  "getSimilarObjects_loop e ids objectMatrix maxCount searched res calls =
     (let res' = reportObjects maxCount (closestObjectIds ids objectMatrix searched) res;
          maxDistance = doubleMul (networkRefVectorsDistanceMedian e) 0.75
      in if length res' = maxCount then Some (calls, Inr res')
         else
           (case network e of
              None \<Rightarrow> Some (calls, Inl NullNetwork)
            | Some n \<Rightarrow>
                (case n searched maxDistance of
                   None \<Rightarrow> Some (calls @ [(searched, maxDistance)], Inr res')
                 | Some position \<Rightarrow>
                     getSimilarObjects_loop e ids objectMatrix maxCount
                       (push_back_if_not_present searched position) res'
                       (calls @ [(searched, maxDistance)]))))"

declare getSimilarObjects_loop.simps [code]

definition getSimilarObjects ::
  "'l FeaturesEngine \<Rightarrow> 'id list \<Rightarrow> 'id ObjectMatrix \<Rightarrow> 'id ObjectPositions \<Rightarrow> nat \<Rightarrow>
   'id Outcome option" where
  "getSimilarObjects e ids objectMatrix objectPositions maxCount =
     (let searched = getMatchingRefVectorsPosition ids objectPositions
      in if searched = [] then Some ([], Inr [])
         else getSimilarObjects_loop e ids objectMatrix maxCount searched [] [])"

text \<open>
  The contract of the network (section 4.1 of the specification): the grid \<open>G\<close> is finite,
  and \<^verbatim>\<open>getClosestRefVectorPosition\<close> answers with a position of the grid that is not among
  the positions it was given.
\<close>

definition networkWellBehaved :: "Position set \<Rightarrow> Network \<Rightarrow> bool" where
  "networkWellBehaved G n \<longleftrightarrow>
     finite G \<and> (\<forall>F d p. n F d = Some p \<longrightarrow> p \<in> G \<and> p \<notin> set F)"

text \<open>
  What the recorded calls look like when the search expands its frontier by one position
  per pass: request \<open>k\<close> is made with a duplicate-free frontier of \<open>L + k\<close> positions, and
  every request carries the same bound \<open>d\<close>.
\<close>

definition requestsGrowing :: "nat \<Rightarrow> real \<Rightarrow> Call list \<Rightarrow> bool" where
  "requestsGrowing L d calls \<longleftrightarrow>
     (\<forall>k < length calls.
        distinct (fst (calls ! k)) \<and> length (fst (calls ! k)) = L + k \<and> snd (calls ! k) = d)"

section \<open>A network given by distances\<close>




section \<open>The engine without a snapshot, and the query operations\<close>

text \<open>
  The state after \<^verbatim>\<open>FeaturesEngine() = default\<close>: the member initialisers leave the network
  pointer empty, the median zero, the maps and the matrices empty.
\<close>

definition defaultEngine :: "'l FeaturesEngine" where
  "defaultEngine =
     \<lparr> loadCancelled = False, network = None, networkRefVectorsDistanceMedian = 0,
       artistPositions = Map.empty, artistMatrix = Map.empty,
       releasePositions = Map.empty, releaseMatrix = (\<lambda>p. []),
       trackPositions = Map.empty, trackMatrix = (\<lambda>p. []) \<rparr>"

text \<open>No snapshot is installed: no network, and nothing in any index.\<close>

definition noSnapshot :: "'l FeaturesEngine \<Rightarrow> bool" where
  "noSnapshot e \<longleftrightarrow>
     network e = None \<and>
     artistPositions e = Map.empty \<and> artistMatrix e = Map.empty \<and>
     releasePositions e = Map.empty \<and> releaseMatrix e = (\<lambda>p. []) \<and>
     trackPositions e = Map.empty \<and> trackMatrix e = (\<lambda>p. [])"

text \<open>
  Modelled from the spec: the bodies of \<^verbatim>\<open>getSimilarTracks\<close>, \<^verbatim>\<open>getSimilarTracksFromTrackList\<close>,
  \<^verbatim>\<open>getSimilarReleases\<close> and \<^verbatim>\<open>getSimilarArtists\<close> are in FeaturesEngine.cpp, which is not among
  the sources; the header only declares them. By section 4.5 each resolves its input to a
  seed set of the matching category and delegates to the search against the installed
  snapshot. The database session of \<^verbatim>\<open>getSimilarTracksFromTrackList\<close> is the function
  \<open>trackListTracks\<close> from a track list to its tracks.
\<close>

definition getSimilarTracks ::
  "'l FeaturesEngine \<Rightarrow> TrackId list \<Rightarrow> nat \<Rightarrow> TrackId Outcome option" where
  "getSimilarTracks e tracksId maxCount =
     getSimilarObjects e tracksId (trackMatrix e) (trackPositions e) maxCount"

text \<open>
  Modelled from the spec: the track list is resolved to its tracks, which are the seeds of
  \<open>getSimilarTracks\<close> (section 4.5).
\<close>

definition getSimilarTracksFromTrackList ::
  "'l FeaturesEngine \<Rightarrow> ('t \<Rightarrow> TrackId list) \<Rightarrow> 't \<Rightarrow> nat \<Rightarrow> TrackId Outcome option" where
  "getSimilarTracksFromTrackList e trackListTracks tracklistId maxCount =
     getSimilarTracks e (trackListTracks tracklistId) maxCount"

text \<open>
  Modelled from the spec: the release is the one seed, searched in the release matrix and the
  release positions (section 4.5).
\<close>

definition getSimilarReleases ::
  "'l FeaturesEngine \<Rightarrow> ReleaseId \<Rightarrow> nat \<Rightarrow> ReleaseId Outcome option" where
  "getSimilarReleases e releaseId maxCount =
     getSimilarObjects e [releaseId] (releaseMatrix e) (releasePositions e) maxCount"

text \<open>
  Modelled from the spec: for artists there is one grid matrix per link type. A link type
  without a matrix contributes nothing. The specification does not say how the results of
  several link types are joined: here they are joined in the order of the link types, first
  occurrences only, and cut at \<open>maxCount\<close>.
\<close>

definition getSimilarArtistsForLinkType ::
  "'l FeaturesEngine \<Rightarrow> ArtistId \<Rightarrow> 'l \<Rightarrow> nat \<Rightarrow> ArtistId Outcome option" where
  "getSimilarArtistsForLinkType e artistId linkType maxCount =
     (case artistMatrix e linkType of
        None \<Rightarrow> Some ([], Inr [])
      | Some objectMatrix \<Rightarrow>
          getSimilarObjects e [artistId] objectMatrix (artistPositions e) maxCount)"

text \<open>
  Modelled from the spec: the loop over the link types; \<open>calls\<close> and \<open>res\<close> are the requests
  and the ids joined so far. A search that fails or does not return ends the loop.
\<close>

fun getSimilarArtists_loop ::
  "'l FeaturesEngine \<Rightarrow> ArtistId \<Rightarrow> 'l list \<Rightarrow> nat \<Rightarrow> Call list \<Rightarrow> ArtistId list \<Rightarrow>
   ArtistId Outcome option" where
  "getSimilarArtists_loop e artistId [] maxCount calls res = Some (calls, Inr (take maxCount res))"
| "getSimilarArtists_loop e artistId (linkType # linkTypes) maxCount calls res =
     (case getSimilarArtistsForLinkType e artistId linkType maxCount of
        None \<Rightarrow> None
      | Some (calls', Inl err) \<Rightarrow> Some (calls @ calls', Inl err)
      | Some (calls', Inr found) \<Rightarrow>
          getSimilarArtists_loop e artistId linkTypes maxCount (calls @ calls')
            (foldl push_back_if_not_present res found))"

text \<open>
  Modelled from the spec: the artist is the one seed, searched for each of the link types
  (section 4.5).
\<close>

definition getSimilarArtists ::
  "'l FeaturesEngine \<Rightarrow> ArtistId \<Rightarrow> 'l list \<Rightarrow> nat \<Rightarrow> ArtistId Outcome option" where
  "getSimilarArtists e artistId linkTypes maxCount =
     getSimilarArtists_loop e artistId linkTypes maxCount [] []"

section \<open>The cache codec\<close>

text \<open>
  Modelled from the spec: \<^verbatim>\<open>toCache\<close> and \<^verbatim>\<open>loadFromCache\<close> are declared in the header, their
  bodies and \<^verbatim>\<open>FeaturesEngineCache\<close> are not among the sources. Sections 3, 4.3 and 6 of the
  specification give what is modelled here. A network has its grid dimensions and one
  reference vector per cell (row by row); a snapshot is the network with a position index
  and a grid matrix per category; a category is track, release, or artist by link type.
\<close>

datatype 'l Category = TrackCategory | ReleaseCategory | ArtistCategory 'l

text \<open>
  Modelled from the spec: the network of section 3, without the median, which is derived
  from the reference vectors after a load.
\<close>

record SomNetwork =
  gridWidth :: nat
  gridHeight :: nat
  refVectors :: "real list list"

text \<open>Modelled from the spec: the snapshot of section 3.\<close>

record 'l Snapshot =
  snapshotNetwork :: SomNetwork
  positionIndex :: "'l Category \<Rightarrow> int ObjectPositions"
  gridMatrix :: "'l Category \<Rightarrow> int ObjectMatrix"

text \<open>
  Modelled from the spec: the blob holds a format tag, the grid dimensions, the reference
  vectors and the indices of every category (section 6).
\<close>

record 'l CacheBlob =
  blobVersion :: nat
  blobWidth :: nat
  blobHeight :: nat
  blobRefVectors :: "real list list"
  blobPositions :: "'l Category \<Rightarrow> int ObjectPositions"
  blobMatrices :: "'l Category \<Rightarrow> int ObjectMatrix"

text \<open>Modelled from the spec: the one error of the codec (sections 4.3 and 7).\<close>

datatype codecError = IncompatibleCache

text \<open>
  Modelled from the spec: \<open>encode\<close> writes the snapshot under the format tag \<open>tag\<close> of the
  running program (section 4.3).
\<close>

definition encode :: "nat \<Rightarrow> 'l Snapshot \<Rightarrow> 'l CacheBlob" where
  "encode tag s =
     \<lparr> blobVersion = tag,
       blobWidth = gridWidth (snapshotNetwork s),
       blobHeight = gridHeight (snapshotNetwork s),
       blobRefVectors = refVectors (snapshotNetwork s),
       blobPositions = positionIndex s,
       blobMatrices = gridMatrix s \<rparr>"

text \<open>
  Modelled from the spec: \<open>decode\<close> checks the format tag, and the dimension of every
  reference vector against the expected dimension; any mismatch gives \<open>IncompatibleCache\<close>,
  nothing is reconstructed in part (section 4.3).
\<close>

definition decode :: "nat \<Rightarrow> 'l CacheBlob \<Rightarrow> nat \<Rightarrow> codecError + 'l Snapshot" where
  "decode tag blob expectedDimensions =
     (if blobVersion blob \<noteq> tag then Inl IncompatibleCache
      else if \<not> list_all (\<lambda>v. length v = expectedDimensions) (blobRefVectors blob)
        then Inl IncompatibleCache
      else Inr \<lparr> snapshotNetwork =
                  \<lparr> gridWidth = blobWidth blob, gridHeight = blobHeight blob,
                    refVectors = blobRefVectors blob \<rparr>,
                positionIndex = blobPositions blob,
                gridMatrix = blobMatrices blob \<rparr>)"

section \<open>The scenario of the specification\<close>

text \<open>
  Section 8 of the specification: a 2 by 2 grid; tracks \<open>A = 1\<close> and \<open>B = 2\<close> in cell \<open>(0, 0)\<close>,
  \<open>C = 3\<close> in cell \<open>(0, 1)\<close>, \<open>D = 4\<close> in cell \<open>(1, 1)\<close>.
\<close>

definition scenarioGrid :: "Position list" where
  "scenarioGrid = [(0, 0), (0, 1), (1, 0), (1, 1)]"

definition scenarioMatrix :: "TrackId ObjectMatrix" where
  "scenarioMatrix p =
     (if p = (0, 0) then [1, 2] else if p = (0, 1) then [3] else if p = (1, 1) then [4] else [])"

definition scenarioPositions :: "TrackId ObjectPositions" where
  "scenarioPositions = [1 \<mapsto> [(0, 0)], 2 \<mapsto> [(0, 0)], 3 \<mapsto> [(0, 1)], 4 \<mapsto> [(1, 1)]]"

text \<open>
  A network for the scenario: every cell is at distance 3 from the others, and the closest
  position is the first cell of the grid, row by row, that is not searched yet.
\<close>

definition scenarioNetwork :: Network where
  "scenarioNetwork F d = (if 3 \<le> d then find (\<lambda>p. p \<notin> set F) scenarioGrid else None)"

text \<open>A network that breaks the contract: it answers with a cell it was given.\<close>

definition stuckNetwork :: Network where
  "stuckNetwork F d = (case F of [] \<Rightarrow> None | p # ps \<Rightarrow> Some p)"

definition scenarioEngine :: "Network option \<Rightarrow> real \<Rightarrow> nat FeaturesEngine" where
  "scenarioEngine n median =
     \<lparr> loadCancelled = False, network = n, networkRefVectorsDistanceMedian = median,
       artistPositions = Map.empty, artistMatrix = Map.empty,
       releasePositions = Map.empty, releaseMatrix = (\<lambda>p. []),
       trackPositions = scenarioPositions, trackMatrix = scenarioMatrix \<rparr>"







text \<open>
  Tracks in more than one cell: track 1 and track 2 are in both cells \<open>(0, 0)\<close> and \<open>(0, 1)\<close>,
  track 3 in cell \<open>(0, 0)\<close>, track 4 in cell \<open>(0, 1)\<close>.
\<close>

definition overlapMatrix :: "TrackId ObjectMatrix" where
  "overlapMatrix p = (if p = (0, 0) then [1, 2, 3] else if p = (0, 1) then [4, 2, 1] else [])"

definition overlapPositions :: "TrackId ObjectPositions" where
  "overlapPositions =
     [1 \<mapsto> [(0, 0), (0, 1)], 2 \<mapsto> [(0, 0), (0, 1)], 3 \<mapsto> [(0, 0)], 4 \<mapsto> [(0, 1)]]"

definition scenarioSnapshot :: "nat Snapshot" where
  "scenarioSnapshot =
     \<lparr> snapshotNetwork =
         \<lparr> gridWidth = 2, gridHeight = 2, refVectors = [[0, 0], [0, 3], [3, 0], [3, 3]] \<rparr>,
       positionIndex = (\<lambda>c. if c = TrackCategory then scenarioPositions else Map.empty),
       gridMatrix = (\<lambda>c. if c = TrackCategory then scenarioMatrix else (\<lambda>p. [])) \<rparr>"

section \<open>Appending without duplicates\<close>

lemma set_push_back_if_not_present:
  "set (push_back_if_not_present xs x) = insert x (set xs)"
  by (auto simp: push_back_if_not_present_def)

lemma distinct_push_back_if_not_present:
  "distinct xs \<Longrightarrow> distinct (push_back_if_not_present xs x)"
  by (simp add: push_back_if_not_present_def)

lemma length_push_back_if_not_present:
  "length (push_back_if_not_present xs x) \<le> Suc (length xs)"
  by (simp add: push_back_if_not_present_def)

lemma push_back_if_not_present_mem:
  "x \<in> set xs \<Longrightarrow> push_back_if_not_present xs x = xs"
  by (simp add: push_back_if_not_present_def)

lemma foldl_push_back_set:
  "set (foldl push_back_if_not_present res xs) = set res \<union> set xs"
  by (induction xs arbitrary: res) (auto simp: set_push_back_if_not_present)

lemma foldl_push_back_distinct:
  "distinct res \<Longrightarrow> distinct (foldl push_back_if_not_present res xs)"
  by (induction xs arbitrary: res) (auto simp: distinct_push_back_if_not_present)

lemma reportObjects_length:
  "length res \<le> maxCount \<Longrightarrow> length (reportObjects maxCount cs res) \<le> maxCount"
proof (induction maxCount cs res rule: reportObjects.induct)
  case (1 maxCount res)
  then show ?case by simp
next
  case (2 maxCount i rest res)
  show ?case
  proof (cases "length res = maxCount")
    case True
    then show ?thesis by simp
  next
    case False
    with "2.prems" have "length (push_back_if_not_present res i) \<le> maxCount"
      using length_push_back_if_not_present [of res i] by linarith
    with False "2.IH" show ?thesis by simp
  qed
qed

lemma reportObjects_distinct:
  "distinct res \<Longrightarrow> distinct (reportObjects maxCount cs res)"
  by (induction maxCount cs res rule: reportObjects.induct)
     (auto simp: distinct_push_back_if_not_present)

lemma reportObjects_set:
  "set (reportObjects maxCount cs res) \<subseteq> set res \<union> set cs"
  by (induction maxCount cs res rule: reportObjects.induct)
     (auto simp: set_push_back_if_not_present)

lemma reportObjects_extends:
  "\<exists>ys. reportObjects maxCount cs res = res @ ys"
proof (induction maxCount cs res rule: reportObjects.induct)
  case (1 maxCount res)
  show ?case by simp
next
  case (2 maxCount i rest res)
  show ?case
  proof (cases "length res = maxCount")
    case True
    then show ?thesis by simp
  next
    case False
    then obtain ys where "reportObjects maxCount rest (push_back_if_not_present res i)
        = push_back_if_not_present res i @ ys"
      using "2.IH" by blast
    with False show ?thesis by (auto simp: push_back_if_not_present_def split: if_splits)
  qed
qed

lemma reportObjects_take:
  "distinct cs \<Longrightarrow> length res \<le> maxCount \<Longrightarrow>
   reportObjects maxCount cs res =
     res @ take (maxCount - length res) (filter (\<lambda>i. i \<notin> set res) cs)"
proof (induction maxCount cs res rule: reportObjects.induct)
  case (1 maxCount res)
  show ?case by simp
next
  case (2 maxCount i rest res)
  show ?case
  proof (cases "length res = maxCount")
    case True
    then show ?thesis by simp
  next
    case False
    note neq = this
    from "2.prems" have d: "distinct rest" and ni: "i \<notin> set rest" by auto
    show ?thesis
    proof (cases "i \<in> set res")
      case True
      then have "push_back_if_not_present res i = res"
        by (simp add: push_back_if_not_present_def)
      with neq True "2.IH" d "2.prems"(2) show ?thesis by simp
    next
      case False
      then have pb: "push_back_if_not_present res i = res @ [i]"
        by (simp add: push_back_if_not_present_def)
      from neq "2.prems"(2) have lt: "length res < maxCount" by simp
      then have le: "length (res @ [i]) \<le> maxCount" by simp
      have f: "filter (\<lambda>j. j \<notin> set (res @ [i])) rest = filter (\<lambda>j. j \<notin> set res) rest"
        using ni by (auto intro: filter_cong)
      have "reportObjects maxCount rest (res @ [i]) =
          (res @ [i]) @ take (maxCount - length (res @ [i])) (filter (\<lambda>j. j \<notin> set (res @ [i])) rest)"
        using "2.IH" neq d le pb by simp
      moreover have "maxCount - length res = Suc (maxCount - length (res @ [i]))"
        using lt by simp
      ultimately show ?thesis using neq False pb f by simp
    qed
  qed
qed

lemma getObjectsIds_distinct: "distinct (getObjectsIds positions objectMatrix)"
proof -
  have "distinct res \<Longrightarrow>
      distinct (foldl (\<lambda>res position. foldl push_back_if_not_present res (objectMatrix position)) res positions)"
    for res
    by (induction positions arbitrary: res) (auto simp: foldl_push_back_distinct)
  then show ?thesis by (simp add: getObjectsIds_def)
qed

lemma getObjectsIds_set:
  "set (getObjectsIds positions objectMatrix) = (\<Union>p \<in> set positions. set (objectMatrix p))"
proof -
  have "set (foldl (\<lambda>res position. foldl push_back_if_not_present res (objectMatrix position)) res positions)
      = set res \<union> (\<Union>p \<in> set positions. set (objectMatrix p))"
    for res
    by (induction positions arbitrary: res) (auto simp: foldl_push_back_set)
  then show ?thesis by (simp add: getObjectsIds_def)
qed

lemma closestObjectIds_distinct: "distinct (closestObjectIds ids objectMatrix searched)"
  by (simp add: closestObjectIds_def getObjectsIds_distinct)

lemma closestObjectIds_set:
  "set (closestObjectIds ids objectMatrix searched) =
     (\<Union>p \<in> set searched. set (objectMatrix p)) - set ids"
  by (auto simp: closestObjectIds_def getObjectsIds_set)

lemma getSimilarObjects_loop_invariant_aux:
  assumes "getSimilarObjects_loop e ids objectMatrix maxCount searched res calls = Some out"
    and "I res"
    and "\<And>s r. I r \<Longrightarrow> I (reportObjects maxCount (closestObjectIds ids objectMatrix s) r)"
  shows "\<forall>calls' r. out = (calls', Inr r) \<longrightarrow> I r"
  using assms(2,3)
proof (induction rule: getSimilarObjects_loop.raw_induct [OF _ assms(1)])
  case (1 loop e ids objectMatrix maxCount searched res calls out)
  let ?res' = "reportObjects maxCount (closestObjectIds ids objectMatrix searched) res"
  have I': "I ?res'" using "1.prems" by blast
  have IH: "\<forall>r. loop e ids objectMatrix maxCount s ?res' c = Some (c', Inr r) \<longrightarrow> I r" for s c c'
    using "1.IH" [of e ids objectMatrix maxCount s ?res' c "(c', Inr _)"] I' "1.prems"(2) by blast
  from "1.hyps" show ?case
    using I' IH
    by (auto simp: Let_def split: if_splits option.splits)
qed

lemma getSimilarObjects_loop_invariant:
  assumes "getSimilarObjects_loop e ids objectMatrix maxCount searched res calls = Some (calls', Inr r)"
    and "I res"
    and "\<And>s r. I r \<Longrightarrow> I (reportObjects maxCount (closestObjectIds ids objectMatrix s) r)"
  shows "I r"
  using getSimilarObjects_loop_invariant_aux [OF assms] by blast

section \<open>The search returns, and what holds of its result\<close>

lemma getSimilarObjects_loop_returns:
  assumes wb: "networkWellBehaved G n" and net: "network e = Some n"
  shows "\<exists>calls' r. getSimilarObjects_loop e ids objectMatrix maxCount searched res calls
            = Some (calls', Inr r)"
proof (induction "card (G - set searched)" arbitrary: searched res calls rule: less_induct)
  case less
  let ?res' = "reportObjects maxCount (closestObjectIds ids objectMatrix searched) res"
  let ?d = "doubleMul (networkRefVectorsDistanceMedian e) 0.75"
  show ?case
  proof (cases "length ?res' = maxCount")
    case True
    then show ?thesis by (subst getSimilarObjects_loop.simps) (simp add: Let_def)
  next
    case False
    note notfull = this
    show ?thesis
    proof (cases "n searched ?d")
      case None
      with notfull net show ?thesis
        by (subst getSimilarObjects_loop.simps) (simp add: Let_def)
    next
      case (Some p)
      with wb have pG: "p \<in> G" and pF: "p \<notin> set searched" and fin: "finite G"
        unfolding networkWellBehaved_def by blast+
      have "G - set (push_back_if_not_present searched p) \<subset> G - set searched"
        using pG pF by (auto simp: set_push_back_if_not_present)
      then have "card (G - set (push_back_if_not_present searched p)) < card (G - set searched)"
        using fin by (intro psubset_card_mono) auto
      from less [OF this]
      obtain calls' r where
        "getSimilarObjects_loop e ids objectMatrix maxCount
           (push_back_if_not_present searched p) ?res' (calls @ [(searched, ?d)]) = Some (calls', Inr r)"
        by blast
      with notfull net Some show ?thesis
        by (subst getSimilarObjects_loop.simps) (simp add: Let_def)
    qed
  qed
qed

lemma getSimilarObjects_returns:
  assumes "networkWellBehaved G n" and "network e = Some n"
  shows "\<exists>calls r. getSimilarObjects e ids objectMatrix objectPositions maxCount
            = Some (calls, Inr r)"
proof (cases "getMatchingRefVectorsPosition ids objectPositions = []")
  case True
  then show ?thesis by (simp add: getSimilarObjects_def)
next
  case False
  then show ?thesis
    using getSimilarObjects_loop_returns [OF assms, of ids objectMatrix maxCount
        "getMatchingRefVectorsPosition ids objectPositions" "[]" "[]"]
    by (simp add: getSimilarObjects_def Let_def)
qed

lemma getSimilarObjects_invariant:
  assumes "getSimilarObjects e ids objectMatrix objectPositions maxCount = Some (calls, Inr r)"
    and "I []"
    and "\<And>s r. I r \<Longrightarrow> I (reportObjects maxCount (closestObjectIds ids objectMatrix s) r)"
  shows "I r"
proof (cases "getMatchingRefVectorsPosition ids objectPositions = []")
  case True
  with assms(1,2) show ?thesis by (simp add: getSimilarObjects_def)
next
  case False
  with assms(1) have "getSimilarObjects_loop e ids objectMatrix maxCount
      (getMatchingRefVectorsPosition ids objectPositions) [] [] = Some (calls, Inr r)"
    by (simp add: getSimilarObjects_def Let_def)
  from getSimilarObjects_loop_invariant [where I = I, OF this assms(2,3)] show ?thesis .
qed

lemma getSimilarObjects_length:
  assumes "getSimilarObjects e ids objectMatrix objectPositions maxCount = Some (calls, Inr r)"
  shows "length r \<le> maxCount"
  by (rule getSimilarObjects_invariant [where I = "\<lambda>r. length r \<le> maxCount", OF assms])
     (simp_all add: reportObjects_length)

lemma getSimilarObjects_no_seed:
  assumes "getSimilarObjects e ids objectMatrix objectPositions maxCount = Some (calls, Inr r)"
  shows "set r \<inter> set ids = {}"
proof (rule getSimilarObjects_invariant [where I = "\<lambda>r. set r \<inter> set ids = {}", OF assms])
  show "set [] \<inter> set ids = {}" by simp
next
  fix s r
  assume "set r \<inter> set ids = {}"
  then show "set (reportObjects maxCount (closestObjectIds ids objectMatrix s) r) \<inter> set ids = {}"
    using reportObjects_set [of maxCount "closestObjectIds ids objectMatrix s" r]
      closestObjectIds_set [of ids objectMatrix s]
    by blast
qed

lemma getSimilarObjects_distinct:
  assumes "getSimilarObjects e ids objectMatrix objectPositions maxCount = Some (calls, Inr r)"
  shows "distinct r"
  by (rule getSimilarObjects_invariant [where I = distinct, OF assms])
     (simp_all add: reportObjects_distinct)

section \<open>Unresolved seeds, a zero cap, no snapshot, the codec\<close>

lemma getSimilarObjects_loop_extends:
  assumes "getSimilarObjects_loop e ids objectMatrix maxCount searched res calls = Some (calls', Inr r)"
  shows "\<exists>ys. r = res @ ys"
proof (rule getSimilarObjects_loop_invariant [where I = "\<lambda>r. \<exists>ys. r = res @ ys", OF assms])
  show "\<exists>ys. res = res @ ys" by simp
next
  fix s r
  assume "\<exists>ys. r = res @ ys"
  then obtain ys where r: "r = res @ ys" ..
  obtain zs where "reportObjects maxCount (closestObjectIds ids objectMatrix s) r = r @ zs"
    using reportObjects_extends by blast
  with r show "\<exists>ys. reportObjects maxCount (closestObjectIds ids objectMatrix s) r = res @ ys"
    by simp
qed

lemma getMatchingRefVectorsPosition_loop_unresolved:
  "\<forall>i \<in> set ids. objectPositions i = None \<Longrightarrow>
   getMatchingRefVectorsPosition_loop ids objectPositions res = res"
  by (induction ids arbitrary: res) simp_all

lemma getMatchingRefVectorsPosition_loop_skips:
  "getMatchingRefVectorsPosition_loop (filter (\<lambda>i. objectPositions i \<noteq> None) ids) objectPositions res
     = getMatchingRefVectorsPosition_loop ids objectPositions res"
  by (induction ids arbitrary: res) (auto split: option.splits)

lemma getMatchingRefVectorsPosition_skips:
  "getMatchingRefVectorsPosition (filter (\<lambda>i. objectPositions i \<noteq> None) ids) objectPositions
     = getMatchingRefVectorsPosition ids objectPositions"
proof (cases "filter (\<lambda>i. objectPositions i \<noteq> None) ids = []")
  case True
  then have "\<forall>i \<in> set ids. objectPositions i = None"
    by (simp add: filter_empty_conv)
  then have "getMatchingRefVectorsPosition_loop ids objectPositions [] = []"
    by (rule getMatchingRefVectorsPosition_loop_unresolved)
  with True show ?thesis by (simp add: getMatchingRefVectorsPosition_def)
next
  case False
  then have "ids \<noteq> []" by auto
  with False show ?thesis
    unfolding getMatchingRefVectorsPosition_def
    using getMatchingRefVectorsPosition_loop_skips [of objectPositions ids "[]"]
    by (simp only: if_False)
qed

lemma getMatchingRefVectorsPosition_unresolved:
  "\<forall>i \<in> set ids. objectPositions i = None \<Longrightarrow>
   getMatchingRefVectorsPosition ids objectPositions = []"
  by (simp add: getMatchingRefVectorsPosition_def getMatchingRefVectorsPosition_loop_unresolved)

lemma getSimilarObjects_unresolved:
  "\<forall>i \<in> set ids. objectPositions i = None \<Longrightarrow>
   getSimilarObjects e ids objectMatrix objectPositions maxCount = Some ([], Inr [])"
  by (simp add: getSimilarObjects_def getMatchingRefVectorsPosition_unresolved)

lemma reportObjects_zero: "reportObjects 0 cs [] = []"
  by (cases cs) simp_all

lemma getSimilarObjects_zero:
  "getSimilarObjects e ids objectMatrix objectPositions 0 = Some ([], Inr [])"
proof (cases "getMatchingRefVectorsPosition ids objectPositions = []")
  case True
  then show ?thesis by (simp add: getSimilarObjects_def)
next
  case False
  have "getSimilarObjects_loop e ids objectMatrix 0 searched [] [] = Some ([], Inr [])" for searched
    by (subst getSimilarObjects_loop.simps) (simp add: Let_def reportObjects_zero)
  with False show ?thesis by (simp add: getSimilarObjects_def Let_def)
qed

lemma getSimilarArtists_loop_noSnapshot:
  "artistMatrix e = Map.empty \<Longrightarrow>
   getSimilarArtists_loop e artistId linkTypes maxCount calls res = Some (calls, Inr (take maxCount res))"
  by (induction linkTypes arbitrary: calls res) (simp_all add: getSimilarArtistsForLinkType_def)

lemma decode_encode:
  "list_all (\<lambda>v. length v = dims) (refVectors (snapshotNetwork s)) \<Longrightarrow>
   decode tag (encode tag s) dims = Inr s"
  by (simp add: decode_def encode_def)

section \<open>One cell, two cells, and a network that answers with a searched cell\<close>

lemma foldl_push_back_new:
  "\<exists>ys. foldl push_back_if_not_present res xs = res @ ys \<and> distinct ys \<and>
        set ys = set xs - set res"
proof (induction xs arbitrary: res)
  case Nil
  show ?case by simp
next
  case (Cons x xs)
  show ?case
  proof (cases "x \<in> set res")
    case True
    then have "push_back_if_not_present res x = res"
      by (rule push_back_if_not_present_mem)
    moreover obtain ys where "foldl push_back_if_not_present res xs = res @ ys"
      "distinct ys" "set ys = set xs - set res"
      using Cons.IH by blast
    ultimately show ?thesis using True by auto
  next
    case False
    then have pb: "push_back_if_not_present res x = res @ [x]"
      by (simp add: push_back_if_not_present_def)
    obtain ys where ys: "foldl push_back_if_not_present (res @ [x]) xs = (res @ [x]) @ ys"
      "distinct ys" "set ys = set xs - set (res @ [x])"
      using Cons.IH by blast
    have "foldl push_back_if_not_present res (x # xs) = res @ (x # ys)"
      using pb ys(1) by simp
    moreover have "distinct (x # ys)" using ys(2,3) by auto
    moreover have "set (x # ys) = set (x # xs) - set res" using ys(3) False by auto
    ultimately show ?thesis by blast
  qed
qed


lemma getMatchingRefVectorsPosition_single:
  "objectPositions a = Some [p] \<Longrightarrow> getMatchingRefVectorsPosition [a] objectPositions = [p]"
  by (simp add: getMatchingRefVectorsPosition_def push_back_if_not_present_def)





lemma reportObjects_keeps: "set res \<subseteq> set (reportObjects maxCount cs res)"
  using reportObjects_extends [of maxCount cs res] by auto

lemma reportObjects_all_reported:
  "length (reportObjects maxCount cs res) \<noteq> maxCount \<Longrightarrow>
   set cs \<subseteq> set (reportObjects maxCount cs res)"
proof (induction maxCount cs res rule: reportObjects.induct)
  case (1 maxCount res)
  show ?case by simp
next
  case (2 maxCount i rest res)
  from "2.prems" have neq: "length res \<noteq> maxCount" by auto
  with "2.prems" "2.IH" have "set rest \<subseteq> set (reportObjects maxCount rest (push_back_if_not_present res i))"
    by simp
  moreover have "i \<in> set (reportObjects maxCount rest (push_back_if_not_present res i))"
    using reportObjects_keeps [of "push_back_if_not_present res i" maxCount rest]
    by (auto simp: set_push_back_if_not_present)
  ultimately show ?case using neq by simp
qed

lemma reportObjects_nothing_new:
  "set cs \<subseteq> set res \<Longrightarrow> reportObjects maxCount cs res = res"
  by (induction maxCount cs res rule: reportObjects.induct)
     (simp_all add: push_back_if_not_present_mem)

lemma reportObjects_settled:
  "length (reportObjects maxCount cs res) \<noteq> maxCount \<Longrightarrow>
   reportObjects maxCount cs (reportObjects maxCount cs res) = reportObjects maxCount cs res"
  by (intro reportObjects_nothing_new reportObjects_all_reported)

lemma getSimilarObjects_loop_settled_never_returns:
  assumes "getSimilarObjects_loop e ids objectMatrix maxCount searched res calls = Some out"
  shows "\<not> (\<exists>n p. network e = Some n \<and>
            n searched (doubleMul (networkRefVectorsDistanceMedian e) 0.75) = Some p \<and> p \<in> set searched \<and>
            reportObjects maxCount (closestObjectIds ids objectMatrix searched) res = res \<and>
            length res \<noteq> maxCount)"
proof (induction rule: getSimilarObjects_loop.raw_induct [OF _ assms])
  case (1 loop e ids objectMatrix maxCount searched res calls out)
  show ?case
  proof
    assume "\<exists>n p. network e = Some n \<and>
            n searched (doubleMul (networkRefVectorsDistanceMedian e) 0.75) = Some p \<and> p \<in> set searched \<and>
            reportObjects maxCount (closestObjectIds ids objectMatrix searched) res = res \<and>
            length res \<noteq> maxCount"
    then obtain n p where st: "network e = Some n"
      "n searched (doubleMul (networkRefVectorsDistanceMedian e) 0.75) = Some p" "p \<in> set searched"
      "reportObjects maxCount (closestObjectIds ids objectMatrix searched) res = res"
      "length res \<noteq> maxCount"
      by blast
    from st(3) have "push_back_if_not_present searched p = searched"
      by (rule push_back_if_not_present_mem)
    with "1.hyps" st have "loop e ids objectMatrix maxCount searched res
        (calls @ [(searched, doubleMul (networkRefVectorsDistanceMedian e) 0.75)]) = Some out"
      by (simp add: Let_def)
    from "1.IH" [OF this] st show False by blast
  qed
qed

lemma getSimilarObjects_loop_stuck:
  assumes "network e = Some n"
    and "n searched (doubleMul (networkRefVectorsDistanceMedian e) 0.75) = Some p"
    and "p \<in> set searched"
    and "length (reportObjects maxCount (closestObjectIds ids objectMatrix searched) res) \<noteq> maxCount"
  shows "getSimilarObjects_loop e ids objectMatrix maxCount searched res calls = None"
proof -
  let ?res' = "reportObjects maxCount (closestObjectIds ids objectMatrix searched) res"
  let ?calls' = "calls @ [(searched, doubleMul (networkRefVectorsDistanceMedian e) 0.75)]"
  from assms(3) have pb: "push_back_if_not_present searched p = searched"
    by (rule push_back_if_not_present_mem)
  have unfold: "getSimilarObjects_loop e ids objectMatrix maxCount searched res calls
      = getSimilarObjects_loop e ids objectMatrix maxCount searched ?res' ?calls'"
    using assms(1,2,4) pb
    by (subst getSimilarObjects_loop.simps) (simp add: Let_def)
  have settled: "reportObjects maxCount (closestObjectIds ids objectMatrix searched) ?res' = ?res'"
    using assms(4) by (rule reportObjects_settled)
  show ?thesis
  proof (cases "getSimilarObjects_loop e ids objectMatrix maxCount searched ?res' ?calls'")
    case None
    with unfold show ?thesis by simp
  next
    case (Some out)
    from getSimilarObjects_loop_settled_never_returns [OF this] assms(1,2,3,4) settled
    show ?thesis by blast
  qed
qed

section \<open>The order of discovery\<close>

lemma foldl_push_back_first:
  "distinct res \<Longrightarrow>
   foldl push_back_if_not_present res xs = rev (remdups (rev (res @ xs)))"
proof (induction xs rule: rev_induct)
  case Nil
  then show ?case by (simp add: distinct_remdups_id)
next
  case (snoc x xs)
  let ?ys = "rev (remdups (rev (res @ xs)))"
  have set_ys: "set ?ys = set res \<union> set xs" by auto
  have "foldl push_back_if_not_present res (xs @ [x]) = push_back_if_not_present ?ys x"
    using snoc by simp
  also have "\<dots> = rev (remdups (rev (res @ xs @ [x])))"
    using set_ys by (simp add: push_back_if_not_present_def)
  finally show ?case .
qed

lemma foldl_push_back_first_Nil:
  "foldl push_back_if_not_present [] xs = rev (remdups (rev xs))"
  using foldl_push_back_first [of "[]" xs] by simp

lemma foldl_cells:
  "foldl (\<lambda>res position. foldl push_back_if_not_present res (objectMatrix position)) res positions
     = foldl push_back_if_not_present res (concat (map objectMatrix positions))"
  by (induction positions arbitrary: res) simp_all

lemma getObjectsIds_scan:
  "getObjectsIds positions objectMatrix = rev (remdups (rev (concat (map objectMatrix positions))))"
  by (simp add: getObjectsIds_def foldl_cells foldl_push_back_first_Nil)

lemma closestObjectIds_scan:
  "closestObjectIds ids objectMatrix searched =
     filter (\<lambda>i. i \<notin> set ids) (rev (remdups (rev (concat (map objectMatrix searched)))))"
  by (simp add: closestObjectIds_def getObjectsIds_scan)

lemma getMatchingRefVectorsPosition_loop_fold:
  "getMatchingRefVectorsPosition_loop ids objectPositions res =
     foldl push_back_if_not_present res
       (concat (map (\<lambda>i. case objectPositions i of None \<Rightarrow> [] | Some positions \<Rightarrow> positions) ids))"
  by (induction ids arbitrary: res) (simp_all split: option.splits)

lemma getMatchingRefVectorsPosition_scan:
  "getMatchingRefVectorsPosition ids objectPositions =
     rev (remdups (rev (concat
       (map (\<lambda>i. case objectPositions i of None \<Rightarrow> [] | Some positions \<Rightarrow> positions) ids))))"
  by (simp add: getMatchingRefVectorsPosition_def getMatchingRefVectorsPosition_loop_fold
      foldl_push_back_first_Nil)

lemma closestObjectIds_grows:
  "\<exists>zs. closestObjectIds ids objectMatrix (push_back_if_not_present searched p)
           = closestObjectIds ids objectMatrix searched @ zs"
proof (cases "p \<in> set searched")
  case True
  then show ?thesis by (simp add: push_back_if_not_present_mem)
next
  case False
  then have pb: "push_back_if_not_present searched p = searched @ [p]"
    by (simp add: push_back_if_not_present_def)
  from foldl_push_back_new [of "getObjectsIds searched objectMatrix" "objectMatrix p"]
  obtain ys where "foldl push_back_if_not_present (getObjectsIds searched objectMatrix) (objectMatrix p)
      = getObjectsIds searched objectMatrix @ ys"
    by (elim exE conjE)
  then have "getObjectsIds (searched @ [p]) objectMatrix = getObjectsIds searched objectMatrix @ ys"
    by (simp add: getObjectsIds_def)
  then show ?thesis by (simp add: pb closestObjectIds_def)
qed

lemma reportObjects_take_prefix:
  assumes "distinct (ys @ zs)" and "res = take maxCount ys"
  shows "reportObjects maxCount (ys @ zs) res = take maxCount (ys @ zs)"
proof (cases "maxCount \<le> length ys")
  case True
  then have len: "length res = maxCount" using assms(2) by simp
  have "reportObjects maxCount cs res = res" for cs
    using len by (cases cs) simp_all
  with True assms(2) show ?thesis by simp
next
  case False
  then have res: "res = ys" and le: "length res \<le> maxCount" using assms(2) by simp_all
  have "filter (\<lambda>i. i \<notin> set ys) zs = zs"
    using assms(1) by (intro filter_True) auto
  then have f: "filter (\<lambda>i. i \<notin> set ys) (ys @ zs) = zs"
    by simp
  have "reportObjects maxCount (ys @ zs) res =
      res @ take (maxCount - length res) (filter (\<lambda>i. i \<notin> set res) (ys @ zs))"
    using assms(1) le by (rule reportObjects_take)
  with res f False show ?thesis by simp
qed

lemma getSimilarObjects_loop_scan:
  assumes run: "getSimilarObjects_loop e ids objectMatrix maxCount searched res calls = Some out"
    and inv: "\<exists>ys zs. closestObjectIds ids objectMatrix searched = ys @ zs \<and> res = take maxCount ys"
  shows "\<forall>calls' r. out = (calls', Inr r) \<longrightarrow>
           (\<exists>ps. r = take maxCount (closestObjectIds ids objectMatrix (searched @ ps)))"
  using inv
proof (induction rule: getSimilarObjects_loop.raw_induct [OF _ run])
  case (1 loop e ids objectMatrix maxCount searched res calls out)
  let ?cs = "closestObjectIds ids objectMatrix searched"
  let ?res' = "reportObjects maxCount ?cs res"
  let ?d = "doubleMul (networkRefVectorsDistanceMedian e) 0.75"
  from "1.prems" obtain ys zs where cs: "?cs = ys @ zs" and res: "res = take maxCount ys"
    by blast
  have "distinct (ys @ zs)" using closestObjectIds_distinct [of ids objectMatrix searched] cs by simp
  then have "reportObjects maxCount (ys @ zs) res = take maxCount (ys @ zs)"
    using res by (rule reportObjects_take_prefix)
  then have res': "?res' = take maxCount ?cs" using cs by simp
  have "?res' = take maxCount (closestObjectIds ids objectMatrix (searched @ []))"
    using res' by simp
  then have here: "\<exists>ps. ?res' = take maxCount (closestObjectIds ids objectMatrix (searched @ ps))"
    by (rule exI)
  have stop: "\<forall>calls' r. out = (c, Inr ?res') \<longrightarrow> out = (calls', Inr r) \<longrightarrow>
      (\<exists>ps. r = take maxCount (closestObjectIds ids objectMatrix (searched @ ps)))" for c
  proof (intro allI impI)
    fix calls' r
    assume "out = (c, Inr ?res')" and "out = (calls', Inr r)"
    then have "r = ?res'" by simp
    with here show "\<exists>ps. r = take maxCount (closestObjectIds ids objectMatrix (searched @ ps))"
      by simp
  qed
  show ?case
  proof (cases "length ?res' = maxCount")
    case True
    with "1.hyps" have "out = (calls, Inr ?res')" by (simp add: Let_def)
    with stop show ?thesis by blast
  next
    case False
    note notfull = this
    show ?thesis
    proof (cases "network e")
      case None
      with notfull "1.hyps" have "out = (calls, Inl NullNetwork)" by (simp add: Let_def)
      then show ?thesis by simp
    next
      case (Some n)
      note net = this
      show ?thesis
      proof (cases "n searched ?d")
        case None
        with notfull net "1.hyps" have "out = (calls @ [(searched, ?d)], Inr ?res')"
          by (simp add: Let_def)
        with stop show ?thesis by blast
      next
        case (Some p)
        let ?s' = "push_back_if_not_present searched p"
        from notfull net Some "1.hyps"
        have rec: "loop e ids objectMatrix maxCount ?s' ?res' (calls @ [(searched, ?d)]) = Some out"
          by (simp add: Let_def)
        from closestObjectIds_grows [of ids objectMatrix searched p]
        obtain ws where ws: "closestObjectIds ids objectMatrix ?s' = ?cs @ ws"
          by (elim exE)
        then have "closestObjectIds ids objectMatrix ?s' = ?cs @ ws \<and> ?res' = take maxCount ?cs"
          using res' by simp
        then have inv': "\<exists>ys zs. closestObjectIds ids objectMatrix ?s' = ys @ zs \<and>
            ?res' = take maxCount ys"
          by (intro exI)
        obtain qs where qs: "?s' = searched @ qs"
          by (cases "p \<in> set searched") (auto simp: push_back_if_not_present_def)
        show ?thesis
        proof (intro allI impI)
          fix calls' r
          assume "out = (calls', Inr r)"
          with "1.IH" [OF rec inv'] obtain ps where
            "r = take maxCount (closestObjectIds ids objectMatrix (?s' @ ps))"
            by blast
          then have "r = take maxCount (closestObjectIds ids objectMatrix (searched @ (qs @ ps)))"
            using qs by simp
          then show "\<exists>ps. r = take maxCount (closestObjectIds ids objectMatrix (searched @ ps))"
            by blast
        qed
      qed
    qed
  qed
qed

lemma getSimilarObjects_scan:
  assumes "getSimilarObjects e ids objectMatrix objectPositions maxCount = Some (calls, Inr r)"
  shows "\<exists>ps. r = take maxCount
           (closestObjectIds ids objectMatrix (getMatchingRefVectorsPosition ids objectPositions @ ps))"
proof (cases "getMatchingRefVectorsPosition ids objectPositions = []")
  case True
  with assms have "r = []" by (simp add: getSimilarObjects_def)
  moreover have "closestObjectIds ids objectMatrix
      (getMatchingRefVectorsPosition ids objectPositions @ []) = []"
    unfolding True by (simp add: closestObjectIds_def getObjectsIds_def)
  ultimately have "r = take maxCount (closestObjectIds ids objectMatrix
      (getMatchingRefVectorsPosition ids objectPositions @ []))"
    by simp
  then show ?thesis by (rule exI)
next
  case False
  with assms have run: "getSimilarObjects_loop e ids objectMatrix maxCount
      (getMatchingRefVectorsPosition ids objectPositions) [] [] = Some (calls, Inr r)"
    by (simp add: getSimilarObjects_def Let_def)
  have "closestObjectIds ids objectMatrix (getMatchingRefVectorsPosition ids objectPositions)
      = [] @ closestObjectIds ids objectMatrix (getMatchingRefVectorsPosition ids objectPositions)
      \<and> [] = take maxCount []"
    by simp
  then have "\<exists>ys zs. closestObjectIds ids objectMatrix (getMatchingRefVectorsPosition ids objectPositions)
      = ys @ zs \<and> [] = take maxCount ys"
    by (intro exI)
  from getSimilarObjects_loop_scan [OF run this] show ?thesis by simp
qed

section \<open>The requests made to the network\<close>

lemma requestsGrowing_Nil: "requestsGrowing L d []"
  by (simp add: requestsGrowing_def)

lemma requestsGrowing_snoc:
  assumes "requestsGrowing L d calls" and "distinct searched"
    and "length searched = L + length calls"
  shows "requestsGrowing L d (calls @ [(searched, d)])"
  unfolding requestsGrowing_def
proof (intro allI impI)
  fix k
  assume k: "k < length (calls @ [(searched, d)])"
  show "distinct (fst ((calls @ [(searched, d)]) ! k)) \<and>
        length (fst ((calls @ [(searched, d)]) ! k)) = L + k \<and>
        snd ((calls @ [(searched, d)]) ! k) = d"
  proof (cases "k < length calls")
    case True
    with assms(1) show ?thesis by (simp add: requestsGrowing_def nth_append)
  next
    case False
    with k have "k = length calls" by simp
    with assms(2,3) show ?thesis by simp
  qed
qed

lemma getSimilarObjects_loop_requests:
  assumes run: "getSimilarObjects_loop e ids objectMatrix maxCount searched res calls = Some out"
    and fresh: "\<And>n F d p. network e = Some n \<Longrightarrow> n F d = Some p \<Longrightarrow> p \<notin> set F"
    and init: "distinct searched" "length searched = L + length calls"
      "requestsGrowing L (doubleMul (networkRefVectorsDistanceMedian e) 0.75) calls"
  shows "requestsGrowing L (doubleMul (networkRefVectorsDistanceMedian e) 0.75) (fst out)"
  using fresh init
proof (induction arbitrary: L rule: getSimilarObjects_loop.raw_induct [OF _ run])
  case (1 loop e ids objectMatrix maxCount searched res calls out)
  let ?res' = "reportObjects maxCount (closestObjectIds ids objectMatrix searched) res"
  let ?d = "doubleMul (networkRefVectorsDistanceMedian e) 0.75"
  let ?calls' = "calls @ [(searched, ?d)]"
  have snoc: "requestsGrowing L ?d ?calls'"
    using "1.prems"(4,2,3) by (rule requestsGrowing_snoc)
  show ?case
  proof (cases "length ?res' = maxCount")
    case True
    with "1.hyps" "1.prems"(4) show ?thesis by (auto simp: Let_def)
  next
    case False
    note notfull = this
    show ?thesis
    proof (cases "network e")
      case None
      with notfull "1.hyps" "1.prems"(4) show ?thesis by (auto simp: Let_def)
    next
      case (Some n)
      note net = this
      show ?thesis
      proof (cases "n searched ?d")
        case None
        with notfull net "1.hyps" snoc show ?thesis by (auto simp: Let_def)
      next
        case (Some p)
        with net "1.prems"(1) have pF: "p \<notin> set searched" by blast
        then have pb: "push_back_if_not_present searched p = searched @ [p]"
          by (simp add: push_back_if_not_present_def)
        from notfull net Some "1.hyps" pb
        have rec: "loop e ids objectMatrix maxCount (searched @ [p]) ?res' ?calls' = Some out"
          by (simp add: Let_def)
        have d': "distinct (searched @ [p])" using "1.prems"(2) pF by simp
        have l': "length (searched @ [p]) = L + length ?calls'" using "1.prems"(3) by simp
        from "1.IH" [OF rec "1.prems"(1) d' l' snoc] show ?thesis by simp
      qed
    qed
  qed
qed

lemma getMatchingRefVectorsPosition_loop_distinct:
  "distinct res \<Longrightarrow> distinct (getMatchingRefVectorsPosition_loop ids objectPositions res)"
  by (induction ids arbitrary: res) (auto simp: foldl_push_back_distinct split: option.splits)

lemma getMatchingRefVectorsPosition_distinct:
  "distinct (getMatchingRefVectorsPosition ids objectPositions)"
  by (simp add: getMatchingRefVectorsPosition_def getMatchingRefVectorsPosition_loop_distinct)

lemma getSimilarObjects_requests:
  assumes run: "getSimilarObjects e ids objectMatrix objectPositions maxCount = Some (calls, out)"
    and fresh: "\<And>n F d p. network e = Some n \<Longrightarrow> n F d = Some p \<Longrightarrow> p \<notin> set F"
  shows "requestsGrowing (length (getMatchingRefVectorsPosition ids objectPositions))
           (doubleMul (networkRefVectorsDistanceMedian e) 0.75) calls"
proof (cases "getMatchingRefVectorsPosition ids objectPositions = []")
  case True
  with run show ?thesis by (simp add: getSimilarObjects_def requestsGrowing_Nil)
next
  case False
  with run have "getSimilarObjects_loop e ids objectMatrix maxCount
      (getMatchingRefVectorsPosition ids objectPositions) [] [] = Some (calls, out)"
    by (simp add: getSimilarObjects_def Let_def)
  from getSimilarObjects_loop_requests [OF this fresh, of _ _ "length (getMatchingRefVectorsPosition ids objectPositions)"]
  show ?thesis
    by (simp add: getMatchingRefVectorsPosition_distinct requestsGrowing_Nil)
qed

section \<open>One pass of the loop\<close>



section \<open>The network given by distances, and a detour\<close>






section \<open>Runs of the scenario\<close>

text \<open>
  The search evaluated on the scenario, by the equations of the model: with a median of 4
  the cutoff is 3 and every cell is within it, with a median of 2 no cell is.
\<close>

lemma doubleMul_scenario:
  "doubleMul 4 0.75 = 3"
  "doubleMul 2 0.75 = 3 / 2"
  "doubleMul 4 (3 / 4) = 3"
  "doubleMul 2 (3 / 4) = 3 / 2"
  by code_simp+

lemma scenarioNetwork_wellBehaved: "networkWellBehaved (set scenarioGrid) scenarioNetwork"
  by (auto simp: networkWellBehaved_def scenarioNetwork_def find_Some_iff split: if_splits)

lemmas scenario_defs = getSimilarObjects_def getMatchingRefVectorsPosition_def
  getSimilarObjects_loop.simps closestObjectIds_def getObjectsIds_def
  push_back_if_not_present_def scenarioEngine_def scenarioPositions_def scenarioMatrix_def
  scenarioNetwork_def scenarioGrid_def doubleMul_scenario

lemma scenario_run_3:
  "getSimilarObjects (scenarioEngine (Some scenarioNetwork) 4) [1] scenarioMatrix scenarioPositions 3
     = Some ([([(0, 0)], 3), ([(0, 0), (0, 1)], 3), ([(0, 0), (0, 1), (1, 0)], 3)], Inr [2, 3, 4])"
  by (simp add: scenario_defs)

lemma scenario_run_seeds_1_3:
  "getSimilarObjects (scenarioEngine (Some scenarioNetwork) 4) [1, 3] scenarioMatrix scenarioPositions 5
     = Some ([([(0, 0), (0, 1)], 3), ([(0, 0), (0, 1), (1, 0)], 3),
              ([(0, 0), (0, 1), (1, 0), (1, 1)], 3)], Inr [2, 4])"
  by (simp add: scenario_defs)

lemma scenario_run_seed_4:
  "getSimilarObjects (scenarioEngine (Some scenarioNetwork) 4) [4] scenarioMatrix scenarioPositions 3
     = Some ([([(1, 1)], 3), ([(1, 1), (0, 0)], 3)], Inr [1, 2, 3])"
  by (simp add: scenario_defs)

lemma scenario_run_5:
  "getSimilarObjects (scenarioEngine (Some scenarioNetwork) 4) [1] scenarioMatrix scenarioPositions 5
     = Some ([([(0, 0)], 3), ([(0, 0), (0, 1)], 3), ([(0, 0), (0, 1), (1, 0)], 3),
              ([(0, 0), (0, 1), (1, 0), (1, 1)], 3)], Inr [2, 3, 4])"
  by (simp add: scenario_defs)

lemma scenario_engine_network:
  "network (scenarioEngine n median) = n"
  "networkRefVectorsDistanceMedian (scenarioEngine n median) = median"
  by (simp_all add: scenarioEngine_def)

lemma scenario_run_short_cutoff:
  "getSimilarObjects (scenarioEngine (Some scenarioNetwork) 2) [1] scenarioMatrix scenarioPositions 5
     = Some ([([(0, 0)], 3 / 2)], Inr [2])"
  by (simp add: scenario_defs)

lemma scenario_run_2:
  "getSimilarObjects (scenarioEngine (Some scenarioNetwork) 4) [1] scenarioMatrix scenarioPositions 2
     = Some ([([(0, 0)], 3)], Inr [2, 3])"
  by (simp add: scenario_defs)

lemma scenario_cells:
  "scenarioPositions 1 = Some [(0, 0)]"
  "set (scenarioMatrix (0, 0)) = {1, 2}"
  "set (scenarioMatrix (0, 1)) = {3}"
  "closestObjectIds [1] scenarioMatrix [(0, 0)] = [2]"
  by (simp_all add: scenarioPositions_def scenarioMatrix_def closestObjectIds_def
      getObjectsIds_def push_back_if_not_present_def insert_commute)

lemma scenario_answers:
  "scenarioNetwork [(0, 0)] (doubleMul 4 0.75) = Some (0, 1)"
  "scenarioNetwork [(0, 0)] (doubleMul 2 0.75) = None"
  "stuckNetwork [(0, 0)] (doubleMul 4 0.75) = Some (0, 0)"
  by (simp_all add: scenarioNetwork_def scenarioGrid_def stuckNetwork_def doubleMul_scenario)





lemma overlap_run:
  "getMatchingRefVectorsPosition [1] overlapPositions = [(0, 0), (0, 1)]"
  "closestObjectIds [1] overlapMatrix [(0, 0), (0, 1)] = [2, 3, 4]"
  "getSimilarObjects (scenarioEngine None 4) [1] overlapMatrix overlapPositions 2
     = Some ([], Inr [2, 3])"
  by code_simp+

section \<open>The properties of the specification\<close>

text \<open>
  C1. For every engine state, seed list and \<open>maxCount\<close>, a result returned by
  \<open>getSimilarObjects\<close> has at most \<open>maxCount\<close> ids; and with a network that keeps its
  contract the search does return such a result.
\<close>

theorem getSimilarObjects_at_most_maxCount:
  "(\<forall>calls r. getSimilarObjects e ids objectMatrix objectPositions maxCount = Some (calls, Inr r)
       \<longrightarrow> length r \<le> maxCount) \<and>
   (\<forall>G n. networkWellBehaved G n \<and> network e = Some n \<longrightarrow>
      (\<exists>calls r. getSimilarObjects e ids objectMatrix objectPositions maxCount = Some (calls, Inr r)
         \<and> length r \<le> maxCount))"
proof (intro conjI allI impI)
  fix calls r
  assume "getSimilarObjects e ids objectMatrix objectPositions maxCount = Some (calls, Inr r)"
  then show "length r \<le> maxCount" by (rule getSimilarObjects_length)
next
  fix G n
  assume "networkWellBehaved G n \<and> network e = Some n"
  then obtain calls r where
    *: "getSimilarObjects e ids objectMatrix objectPositions maxCount = Some (calls, Inr r)"
    using getSimilarObjects_returns by blast
  then have "length r \<le> maxCount" by (rule getSimilarObjects_length)
  with * show "\<exists>calls r. getSimilarObjects e ids objectMatrix objectPositions maxCount
      = Some (calls, Inr r) \<and> length r \<le> maxCount" by blast
qed

theorem getSimilarObjects_at_most_maxCount_witness:
  "getSimilarObjects (scenarioEngine (Some scenarioNetwork) 4) [1] scenarioMatrix scenarioPositions 3
     = Some ([([(0, 0)], 3), ([(0, 0), (0, 1)], 3), ([(0, 0), (0, 1), (1, 0)], 3)], Inr [2, 3, 4]) \<and>
   length [2, 3, 4 :: int] \<le> 3 \<and>
   networkWellBehaved (set scenarioGrid) scenarioNetwork \<and>
   network (scenarioEngine (Some scenarioNetwork) 4) = Some scenarioNetwork"
  using getSimilarObjects_at_most_maxCount
    [of "scenarioEngine (Some scenarioNetwork) 4" "[1]" scenarioMatrix scenarioPositions 3]
    scenario_run_3 scenarioNetwork_wellBehaved
  by (simp add: scenarioEngine_def)

text \<open>
  C2. A result returned by \<open>getSimilarObjects\<close> holds none of the seed ids, for every engine
  state, seed list and \<open>maxCount\<close>; and with a network that keeps its contract the search
  does return such a result.
\<close>

theorem getSimilarObjects_never_returns_seed:
  "(\<forall>calls r. getSimilarObjects e ids objectMatrix objectPositions maxCount = Some (calls, Inr r)
       \<longrightarrow> set r \<inter> set ids = {}) \<and>
   (\<forall>G n. networkWellBehaved G n \<and> network e = Some n \<longrightarrow>
      (\<exists>calls r. getSimilarObjects e ids objectMatrix objectPositions maxCount = Some (calls, Inr r)
         \<and> set r \<inter> set ids = {}))"
proof (intro conjI allI impI)
  fix calls r
  assume "getSimilarObjects e ids objectMatrix objectPositions maxCount = Some (calls, Inr r)"
  then show "set r \<inter> set ids = {}" by (rule getSimilarObjects_no_seed)
next
  fix G n
  assume "networkWellBehaved G n \<and> network e = Some n"
  then obtain calls r where
    *: "getSimilarObjects e ids objectMatrix objectPositions maxCount = Some (calls, Inr r)"
    using getSimilarObjects_returns by blast
  then have "set r \<inter> set ids = {}" by (rule getSimilarObjects_no_seed)
  with * show "\<exists>calls r. getSimilarObjects e ids objectMatrix objectPositions maxCount
      = Some (calls, Inr r) \<and> set r \<inter> set ids = {}" by blast
qed

theorem getSimilarObjects_never_returns_seed_witness:
  "getSimilarObjects (scenarioEngine (Some scenarioNetwork) 4) [1, 3] scenarioMatrix scenarioPositions 5
     = Some ([([(0, 0), (0, 1)], 3), ([(0, 0), (0, 1), (1, 0)], 3),
              ([(0, 0), (0, 1), (1, 0), (1, 1)], 3)], Inr [2, 4]) \<and>
   set [2, 4 :: int] \<inter> set [1, 3] = {} \<and>
   networkWellBehaved (set scenarioGrid) scenarioNetwork \<and>
   network (scenarioEngine (Some scenarioNetwork) 4) = Some scenarioNetwork"
  using getSimilarObjects_never_returns_seed
    [of "scenarioEngine (Some scenarioNetwork) 4" "[1, 3]" scenarioMatrix scenarioPositions 5]
    scenario_run_seeds_1_3 scenarioNetwork_wellBehaved
  by (simp add: scenario_engine_network)

text \<open>
  C3. A result returned by \<open>getSimilarObjects\<close> has no duplicates, and its ids are in discovery
  order. Discovery order is the order of the scan of the source: the searched positions in
  their order (the positions of the seeds, in the order of the seeds, then the positions
  pushed behind them), the ids of each cell in the order of the cell, first occurrences
  only, seeds left out. The result is the first \<open>maxCount\<close> ids of this scan. A pass appends,
  behind the ids reported so far, the ids of the scan not reported yet, up to the cap; what
  the loop returns starts with what was reported before.
\<close>

theorem getSimilarObjects_no_duplicates_in_discovery_order:
  "(\<forall>calls r. getSimilarObjects e ids objectMatrix objectPositions maxCount = Some (calls, Inr r)
       \<longrightarrow> distinct r \<and>
           (\<exists>ps. r = take maxCount (closestObjectIds ids objectMatrix
                        (getMatchingRefVectorsPosition ids objectPositions @ ps)))) \<and>
   (\<forall>G n. networkWellBehaved G n \<and> network e = Some n \<longrightarrow>
      (\<exists>calls r. getSimilarObjects e ids objectMatrix objectPositions maxCount = Some (calls, Inr r)
         \<and> distinct r)) \<and>
   closestObjectIds ids objectMatrix searched =
     filter (\<lambda>i. i \<notin> set ids) (rev (remdups (rev (concat (map objectMatrix searched))))) \<and>
   getMatchingRefVectorsPosition ids objectPositions =
     rev (remdups (rev (concat
       (map (\<lambda>i. case objectPositions i of None \<Rightarrow> [] | Some positions \<Rightarrow> positions) ids)))) \<and>
   (length res \<le> maxCount \<longrightarrow>
      reportObjects maxCount (closestObjectIds ids objectMatrix searched) res =
        res @ take (maxCount - length res)
                (filter (\<lambda>i. i \<notin> set res) (closestObjectIds ids objectMatrix searched))) \<and>
   (\<forall>calls' r. getSimilarObjects_loop e ids objectMatrix maxCount searched res calls
        = Some (calls', Inr r) \<longrightarrow> (\<exists>ys. r = res @ ys))"
proof (intro conjI allI impI)
  fix calls r
  assume run: "getSimilarObjects e ids objectMatrix objectPositions maxCount = Some (calls, Inr r)"
  then show "distinct r" by (rule getSimilarObjects_distinct)
  from run show "\<exists>ps. r = take maxCount (closestObjectIds ids objectMatrix
      (getMatchingRefVectorsPosition ids objectPositions @ ps))"
    by (rule getSimilarObjects_scan)
next
  fix G n
  assume "networkWellBehaved G n \<and> network e = Some n"
  then obtain calls r where
    *: "getSimilarObjects e ids objectMatrix objectPositions maxCount = Some (calls, Inr r)"
    using getSimilarObjects_returns by blast
  then have "distinct r" by (rule getSimilarObjects_distinct)
  with * show "\<exists>calls r. getSimilarObjects e ids objectMatrix objectPositions maxCount
      = Some (calls, Inr r) \<and> distinct r" by blast
next
  show "closestObjectIds ids objectMatrix searched =
     filter (\<lambda>i. i \<notin> set ids) (rev (remdups (rev (concat (map objectMatrix searched)))))"
    by (rule closestObjectIds_scan)
next
  show "getMatchingRefVectorsPosition ids objectPositions =
     rev (remdups (rev (concat
       (map (\<lambda>i. case objectPositions i of None \<Rightarrow> [] | Some positions \<Rightarrow> positions) ids))))"
    by (rule getMatchingRefVectorsPosition_scan)
next
  assume "length res \<le> maxCount"
  with closestObjectIds_distinct
  show "reportObjects maxCount (closestObjectIds ids objectMatrix searched) res =
        res @ take (maxCount - length res)
                (filter (\<lambda>i. i \<notin> set res) (closestObjectIds ids objectMatrix searched))"
    by (rule reportObjects_take)
next
  fix calls' r
  assume "getSimilarObjects_loop e ids objectMatrix maxCount searched res calls = Some (calls', Inr r)"
  then show "\<exists>ys. r = res @ ys" by (rule getSimilarObjects_loop_extends)
qed

theorem getSimilarObjects_no_duplicates_in_discovery_order_witness:
  "getMatchingRefVectorsPosition [1] overlapPositions = [(0, 0), (0, 1)] \<and>
   closestObjectIds [1] overlapMatrix [(0, 0), (0, 1)] = [2, 3, 4] \<and>
   getSimilarObjects (scenarioEngine None 4) [1] overlapMatrix overlapPositions 2
     = Some ([], Inr [2, 3]) \<and>
   distinct [2, 3 :: int] \<and>
   [2, 3 :: int] = take 2 (closestObjectIds [1] overlapMatrix
                      (getMatchingRefVectorsPosition [1] overlapPositions @ [])) \<and>
   getSimilarObjects (scenarioEngine (Some scenarioNetwork) 4) [4] scenarioMatrix scenarioPositions 3
     = Some ([([(1, 1)], 3), ([(1, 1), (0, 0)], 3)], Inr [1, 2, 3]) \<and>
   distinct [1, 2, 3 :: int] \<and>
   networkWellBehaved (set scenarioGrid) scenarioNetwork \<and>
   network (scenarioEngine (Some scenarioNetwork) 4) = Some scenarioNetwork \<and>
   length [1 :: int] \<le> 3 \<and>
   closestObjectIds [4] scenarioMatrix [(1, 1), (0, 0), (0, 1)] = [1, 2, 3] \<and>
   reportObjects 3 (closestObjectIds [4] scenarioMatrix [(1, 1), (0, 0), (0, 1)]) [1] = [1, 2, 3]"
proof -
  have c: "closestObjectIds [4] scenarioMatrix [(1, 1), (0, 0), (0, 1)] = [1, 2, 3]"
    by (simp add: closestObjectIds_def getObjectsIds_def scenarioMatrix_def
        push_back_if_not_present_def)
  have "length [1 :: int] \<le> 3" by simp
  with getSimilarObjects_no_duplicates_in_discovery_order
      [of "scenarioEngine (Some scenarioNetwork) 4" "[4]" scenarioMatrix scenarioPositions 3
          "[(1, 1), (0, 0), (0, 1)]" "[1]" "[]"]
  have "reportObjects 3 (closestObjectIds [4] scenarioMatrix [(1, 1), (0, 0), (0, 1)]) [1]
      = [1] @ take (3 - length [1 :: int])
          (filter (\<lambda>i. i \<notin> set [1]) (closestObjectIds [4] scenarioMatrix [(1, 1), (0, 0), (0, 1)]))"
    by blast
  then have r: "reportObjects 3 (closestObjectIds [4] scenarioMatrix [(1, 1), (0, 0), (0, 1)]) [1]
      = [1, 2, 3]"
    unfolding c by simp
  show ?thesis
    unfolding overlap_run append_Nil2
    using c r scenario_run_seed_4 scenarioNetwork_wellBehaved
    by (simp add: scenario_engine_network)
qed

text \<open>
  C4. If no seed id has an entry in the position index (an empty seed list is the least
  case), \<open>getSimilarObjects\<close> returns the empty result without a request to the network,
  whatever the engine state, the matrix and \<open>maxCount\<close>. Seeds without an entry are skipped:
  the positions searched first are those of the seeds that have one.
\<close>

theorem getSimilarObjects_unresolved_seeds:
  "((\<forall>i \<in> set ids. objectPositions i = None) \<longrightarrow>
      getSimilarObjects e ids objectMatrix objectPositions maxCount = Some ([], Inr [])) \<and>
   getSimilarObjects e [] objectMatrix objectPositions maxCount = Some ([], Inr []) \<and>
   getMatchingRefVectorsPosition ids objectPositions =
     getMatchingRefVectorsPosition (filter (\<lambda>i. objectPositions i \<noteq> None) ids) objectPositions"
proof (intro conjI impI)
  assume "\<forall>i \<in> set ids. objectPositions i = None"
  then show "getSimilarObjects e ids objectMatrix objectPositions maxCount = Some ([], Inr [])"
    by (rule getSimilarObjects_unresolved)
next
  show "getSimilarObjects e [] objectMatrix objectPositions maxCount = Some ([], Inr [])"
    by (rule getSimilarObjects_unresolved) simp
next
  show "getMatchingRefVectorsPosition ids objectPositions =
     getMatchingRefVectorsPosition (filter (\<lambda>i. objectPositions i \<noteq> None) ids) objectPositions"
    by (rule getMatchingRefVectorsPosition_skips [symmetric])
qed

theorem getSimilarObjects_unresolved_seeds_witness:
  "scenarioPositions 7 = None \<and> scenarioPositions 8 = None \<and>
   getSimilarObjects (scenarioEngine None 4) [7, 8] scenarioMatrix scenarioPositions 5
     = Some ([], Inr []) \<and>
   getMatchingRefVectorsPosition [7, 2, 8] scenarioPositions = [(0, 0)]"
proof -
  have none: "scenarioPositions 7 = None" "scenarioPositions 8 = None"
    by (simp_all add: scenarioPositions_def)
  then have "\<forall>i \<in> set [7, 8]. scenarioPositions i = None" by simp
  with getSimilarObjects_unresolved_seeds
    [of "[7, 8]" scenarioPositions "scenarioEngine None 4" scenarioMatrix 5]
  have "getSimilarObjects (scenarioEngine None 4) [7, 8] scenarioMatrix scenarioPositions 5
     = Some ([], Inr [])"
    by blast
  moreover have "getMatchingRefVectorsPosition [7, 2, 8] scenarioPositions = [(0, 0)]"
    by (simp add: getMatchingRefVectorsPosition_def scenarioPositions_def
        push_back_if_not_present_def)
  ultimately show ?thesis using none by simp
qed

text \<open>
  C5. With no snapshot installed (no network, every index empty) each query operation
  returns the empty result: it neither fails on the empty network pointer nor runs on.
  The search itself returns the empty result on each of the three position indices,
  for every matrix.
\<close>

theorem queries_without_snapshot:
  assumes "noSnapshot e"
  shows "getSimilarTracks e tracksId maxCount = Some ([], Inr []) \<and>
         getSimilarTracksFromTrackList e trackListTracks tracklistId maxCount = Some ([], Inr []) \<and>
         getSimilarReleases e releaseId maxCount = Some ([], Inr []) \<and>
         getSimilarArtists e artistId linkTypes maxCount = Some ([], Inr []) \<and>
         getSimilarObjects e ids objectMatrix (trackPositions e) maxCount = Some ([], Inr []) \<and>
         getSimilarObjects e ids objectMatrix (releasePositions e) maxCount = Some ([], Inr []) \<and>
         getSimilarObjects e ids objectMatrix (artistPositions e) maxCount = Some ([], Inr [])"
proof -
  from assms have t: "trackPositions e = Map.empty" and r: "releasePositions e = Map.empty"
    and a: "artistPositions e = Map.empty" and m: "artistMatrix e = Map.empty"
    by (simp_all add: noSnapshot_def)
  have empty: "getSimilarObjects e xs om Map.empty maxCount = Some ([], Inr [])"
    for xs :: "int list" and om
    by (rule getSimilarObjects_unresolved) simp
  have "getSimilarArtists e artistId linkTypes maxCount = Some ([], Inr [])"
    using getSimilarArtists_loop_noSnapshot [OF m, of artistId linkTypes maxCount "[]" "[]"]
    by (simp add: getSimilarArtists_def)
  then show ?thesis
    using empty
    by (simp add: getSimilarTracks_def getSimilarTracksFromTrackList_def getSimilarReleases_def
        t r a)
qed

theorem queries_without_snapshot_witness:
  "noSnapshot (defaultEngine :: nat FeaturesEngine) \<and>
   getSimilarTracks (defaultEngine :: nat FeaturesEngine) [1, 2] 5 = Some ([], Inr []) \<and>
   getSimilarTracksFromTrackList (defaultEngine :: nat FeaturesEngine) (\<lambda>t :: nat. [1, 2]) 0 5
     = Some ([], Inr []) \<and>
   getSimilarReleases (defaultEngine :: nat FeaturesEngine) 1 5 = Some ([], Inr []) \<and>
   getSimilarArtists (defaultEngine :: nat FeaturesEngine) 1 [0, 1] 5 = Some ([], Inr [])"
proof -
  have n: "noSnapshot (defaultEngine :: nat FeaturesEngine)"
    by (simp add: noSnapshot_def defaultEngine_def)
  from queries_without_snapshot [OF n, of "[1, 2]" 5 "\<lambda>t :: nat. [1, 2]" 0 1 1 "[0, 1]"] n
  show ?thesis by simp
qed







text \<open>
  C8. Decoding the encoding of a snapshot gives the snapshot back (its reference vectors,
  its position indices and its grid matrices), when the expected dimension is the
  dimension of the snapshot's reference vectors.
\<close>

theorem decode_encode_round_trip:
  assumes "list_all (\<lambda>v. length v = dims) (refVectors (snapshotNetwork s))"
  shows "decode tag (encode tag s) dims = Inr s"
  using assms by (rule decode_encode)

theorem decode_encode_round_trip_witness:
  "list_all (\<lambda>v. length v = 2) (refVectors (snapshotNetwork scenarioSnapshot)) \<and>
   decode 1 (encode 1 scenarioSnapshot) 2 = Inr scenarioSnapshot"
proof -
  have l: "list_all (\<lambda>v. length v = 2) (refVectors (snapshotNetwork scenarioSnapshot))"
    by (simp add: scenarioSnapshot_def)
  from decode_encode_round_trip [OF l, of 1] l show ?thesis by simp
qed

text \<open>
  C9. When the grid is finite and the network only answers with a position of the grid
  that is not among the positions it was given, the search returns, for every input. Its
  first frontier has no duplicates, and request \<open>k\<close> to the network is made with a
  duplicate-free frontier of \<open>k\<close> positions more than the first, so the frontier grows by
  one position per pass that does not stop. A network that answers with a position it was
  given, on a pass that does not reach \<open>maxCount\<close>, makes the loop run forever.
\<close>

theorem getSimilarObjects_terminates:
  "(\<forall>G n. networkWellBehaved G n \<and> network e = Some n \<longrightarrow>
      (\<exists>calls r. getSimilarObjects e ids objectMatrix objectPositions maxCount = Some (calls, Inr r) \<and>
         requestsGrowing (length (getMatchingRefVectorsPosition ids objectPositions))
           (doubleMul (networkRefVectorsDistanceMedian e) 0.75) calls)) \<and>
   distinct (getMatchingRefVectorsPosition ids objectPositions) \<and>
   (\<forall>n position. network e = Some n \<and>
       n searched (doubleMul (networkRefVectorsDistanceMedian e) 0.75) = Some position \<and>
       position \<in> set searched \<and>
       length (reportObjects maxCount (closestObjectIds ids objectMatrix searched) res) \<noteq> maxCount \<longrightarrow>
       getSimilarObjects_loop e ids objectMatrix maxCount searched res calls = None)"
proof (intro conjI allI impI)
  fix G n
  assume h: "networkWellBehaved G n \<and> network e = Some n"
  then obtain calls r where
    run: "getSimilarObjects e ids objectMatrix objectPositions maxCount = Some (calls, Inr r)"
    using getSimilarObjects_returns by blast
  have "requestsGrowing (length (getMatchingRefVectorsPosition ids objectPositions))
           (doubleMul (networkRefVectorsDistanceMedian e) 0.75) calls"
  proof (rule getSimilarObjects_requests [OF run])
    fix n' F d p
    assume "network e = Some n'" and ans: "n' F d = Some p"
    with h have "n' = n" by simp
    with ans h show "p \<notin> set F" unfolding networkWellBehaved_def by blast
  qed
  with run show "\<exists>calls r.
      getSimilarObjects e ids objectMatrix objectPositions maxCount = Some (calls, Inr r) \<and>
      requestsGrowing (length (getMatchingRefVectorsPosition ids objectPositions))
        (doubleMul (networkRefVectorsDistanceMedian e) 0.75) calls"
    by blast
next
  show "distinct (getMatchingRefVectorsPosition ids objectPositions)"
    by (rule getMatchingRefVectorsPosition_distinct)
next
  fix n position
  assume "network e = Some n \<and>
       n searched (doubleMul (networkRefVectorsDistanceMedian e) 0.75) = Some position \<and>
       position \<in> set searched \<and>
       length (reportObjects maxCount (closestObjectIds ids objectMatrix searched) res) \<noteq> maxCount"
  then show "getSimilarObjects_loop e ids objectMatrix maxCount searched res calls = None"
    by (intro getSimilarObjects_loop_stuck [of e n searched position]) simp_all
qed

theorem getSimilarObjects_terminates_witness:
  "networkWellBehaved (set scenarioGrid) scenarioNetwork \<and>
   network (scenarioEngine (Some scenarioNetwork) 4) = Some scenarioNetwork \<and>
   getSimilarObjects (scenarioEngine (Some scenarioNetwork) 4) [1] scenarioMatrix scenarioPositions 5
     = Some ([([(0, 0)], 3), ([(0, 0), (0, 1)], 3), ([(0, 0), (0, 1), (1, 0)], 3),
              ([(0, 0), (0, 1), (1, 0), (1, 1)], 3)], Inr [2, 3, 4]) \<and>
   requestsGrowing 1 3 [([(0, 0)], 3), ([(0, 0), (0, 1)], 3), ([(0, 0), (0, 1), (1, 0)], 3),
              ([(0, 0), (0, 1), (1, 0), (1, 1)], 3)] \<and>
   network (scenarioEngine (Some stuckNetwork) 4) = Some stuckNetwork \<and>
   stuckNetwork [(0, 0)] 3 = Some (0, 0) \<and>
   (0, 0) \<in> set [(0 :: nat, 0 :: nat)] \<and>
   reportObjects 5 (closestObjectIds [1] scenarioMatrix [(0, 0)]) [] = [2] \<and>
   length [2 :: int] \<noteq> 5 \<and>
   getSimilarObjects_loop (scenarioEngine (Some stuckNetwork) 4) [1] scenarioMatrix 5 [(0, 0)] [] []
     = None"
proof -
  let ?e = "scenarioEngine (Some scenarioNetwork) 4"
  let ?s = "scenarioEngine (Some stuckNetwork) 4"
  let ?calls = "[([(0, 0)], 3), ([(0, 0), (0, 1)], 3), ([(0, 0), (0, 1), (1, 0)], 3),
              ([(0 :: nat, 0 :: nat), (0, 1), (1, 0), (1, 1)], 3 :: real)]"
  have f0: "getMatchingRefVectorsPosition [1] scenarioPositions = [(0, 0)]"
    using scenario_cells(1) by (rule getMatchingRefVectorsPosition_single)
  have d: "doubleMul (networkRefVectorsDistanceMedian ?e) 0.75 = 3"
    "doubleMul (networkRefVectorsDistanceMedian ?s) 0.75 = 3"
    by (simp_all add: scenario_engine_network doubleMul_scenario)
  have net: "network ?e = Some scenarioNetwork" "network ?s = Some stuckNetwork"
    by (simp_all add: scenario_engine_network doubleMul_scenario)
  have r: "reportObjects 5 (closestObjectIds [1] scenarioMatrix [(0, 0)]) [] = [2]"
    by (simp add: scenario_cells push_back_if_not_present_def)
  have ans: "stuckNetwork [(0, 0)] 3 = Some (0, 0)"
    using scenario_answers(3) by (simp add: doubleMul_scenario)
  from getSimilarObjects_terminates
    [of ?e "[1]" scenarioMatrix scenarioPositions 5 "[(0, 0)]" "[]" "[]"]
    scenarioNetwork_wellBehaved net(1)
  obtain calls r' where
    "getSimilarObjects ?e [1] scenarioMatrix scenarioPositions 5 = Some (calls, Inr r')"
    and "requestsGrowing (length (getMatchingRefVectorsPosition [1] scenarioPositions))
           (doubleMul (networkRefVectorsDistanceMedian ?e) 0.75) calls"
    by blast
  with scenario_run_5 have grow: "requestsGrowing 1 3 ?calls"
    unfolding f0 d by simp
  from getSimilarObjects_terminates
    [of ?s "[1]" scenarioMatrix scenarioPositions 5 "[(0, 0)]" "[]" "[]"]
    net(2) ans r
  have stuck: "getSimilarObjects_loop ?s [1] scenarioMatrix 5 [(0, 0)] [] [] = None"
    unfolding d by simp
  from scenarioNetwork_wellBehaved net scenario_run_5 grow ans r stuck show ?thesis by simp
qed

text \<open>
  C10. With \<open>maxCount = 0\<close> the search returns the empty result without a request to the
  network, for every engine state (also one without a network), every seed list and every
  matrix.
\<close>

theorem getSimilarObjects_maxCount_zero:
  "getSimilarObjects e ids objectMatrix objectPositions 0 = Some ([], Inr [])"
  by (rule getSimilarObjects_zero)

theorem getSimilarObjects_maxCount_zero_witness:
  "getMatchingRefVectorsPosition [1] scenarioPositions = [(0, 0)] \<and>
   closestObjectIds [1] scenarioMatrix [(0, 0)] = [2] \<and>
   getSimilarObjects (scenarioEngine None 4) [1] scenarioMatrix scenarioPositions 0
     = Some ([], Inr [])"
proof -
  have "getMatchingRefVectorsPosition [1] scenarioPositions = [(0, 0)]"
    by (simp add: getMatchingRefVectorsPosition_def scenarioPositions_def
        push_back_if_not_present_def)
  moreover have "closestObjectIds [1] scenarioMatrix [(0, 0)] = [2]"
    by (simp add: closestObjectIds_def getObjectsIds_def scenarioMatrix_def
        push_back_if_not_present_def)
  ultimately show ?thesis
    using getSimilarObjects_maxCount_zero
      [of "scenarioEngine None 4" "[1]" scenarioMatrix scenarioPositions]
    by simp
qed

end
